theory Spec2Isabelle
  imports Main "HOL-Library.Word" "HOL-Library.Stream" "HOL-Library.Sublist"
begin

section \<open>Messages, errors and formatting\<close>

text \<open>
  Modelled from the spec: the generated protobuf package \<open>proto\<close> (the message types
  \<open>HelloRequest\<close> and \<open>HelloResponse\<close> with their getters) is not among the sources.
  The spec's data model gives a request one field \<open>name: string\<close> and a response the
  fields \<open>message: string\<close> and \<open>count: integer\<close>; the Go code writes them as
  \<open>Name\<close>, \<open>Message\<close> and \<open>Count\<close> and converts the count with \<open>int32\<close>.
  Go strings are byte sequences, as \<open>string\<close> is here. The request record is used
  through its scheme, so that two requests may agree on the name and differ elsewhere.
\<close>

record HelloRequest =
  Name :: string

record HelloResponse =
  Message :: string
  Count :: "32 word"

definition GetName :: "'a HelloRequest_scheme \<Rightarrow> string" where
  "GetName req = Name req"

definition GetMessage :: "HelloResponse \<Rightarrow> string" where
  "GetMessage response = Message response"

definition GetCount :: "HelloResponse \<Rightarrow> 32 word" where
  "GetCount response = Count response"

text \<open>
  A Go \<open>error\<close> value: the sentinel \<open>io.EOF\<close>, which the client compares by identity,
  or any other error, known by its text. An error return that may be \<open>nil\<close> is an
  \<open>error option\<close>.
\<close>

datatype error = io_EOF | Error string

fun Error_text :: "error \<Rightarrow> string" where
  "Error_text io_EOF = ''EOF''"
| "Error_text (Error msg) = msg"

text \<open>
  \<open>fmt.Sprintf\<close> for the verbs the program uses: \<open>%s\<close> on a string, \<open>%d\<close> on an
  integer (decimal, with a minus sign) and \<open>%v\<close> on an error (its text). A verb with no
  operand left renders as Go's \<open>%!v(MISSING)\<close>, a lone \<open>%\<close> at the end as
  \<open>%!(NOVERB)\<close>; a verb on an operand of another kind renders as \<open>%!v(BADVERB)\<close>,
  which stands for Go's longer diagnostic and is never reached by the program.
\<close>

datatype arg = AStr string | AInt int | AErr error

function digits :: "nat \<Rightarrow> string" where
  "digits n = (if n < 10 then [''0123456789'' ! n]
               else digits (n div 10) @ [''0123456789'' ! (n mod 10)])"
  by pat_completeness auto
termination
  by (relation "measure (\<lambda>n. n)") auto

declare digits.simps [simp del]

definition fmt_d :: "int \<Rightarrow> string" where
  "fmt_d i = (if i < 0 then CHR ''-'' # digits (nat (- i)) else digits (nat i))"

fun verb :: "char \<Rightarrow> arg \<Rightarrow> string" where
  "verb c (AStr s) = (if c = CHR ''s'' \<or> c = CHR ''v'' then s else ''%!'' @ [c] @ ''(BADVERB)'')"
| "verb c (AInt i) = (if c = CHR ''d'' \<or> c = CHR ''v'' then fmt_d i else ''%!'' @ [c] @ ''(BADVERB)'')"
| "verb c (AErr e) = (if c = CHR ''v'' \<or> c = CHR ''s'' then Error_text e else ''%!'' @ [c] @ ''(BADVERB)'')"

fun Sprintf :: "string \<Rightarrow> arg list \<Rightarrow> string" where
  "Sprintf [] args = []"
| "Sprintf (c # fmt) args =
     (if c \<noteq> CHR ''%'' then c # Sprintf fmt args
      else case fmt of
             [] \<Rightarrow> ''%!(NOVERB)''
           | v # rest \<Rightarrow>
               if v = CHR ''%'' then CHR ''%'' # Sprintf rest args
               else case args of
                      [] \<Rightarrow> ''%!'' @ [v] @ ''(MISSING)'' @ Sprintf rest []
                    | a # as \<Rightarrow> verb v a @ Sprintf rest as)"

section \<open>The server handlers\<close>

text \<open>
  What a handler does besides returning: it writes log lines, calls \<open>Send\<close> on its
  stream and sleeps. A run is recorded as the list of these events in program order;
  a \<open>StreamSend\<close> event carries the response handed to \<open>stream.Send\<close> and what that
  call returned. Durations are nanoseconds, as in \<open>time.Duration\<close>.
\<close>

datatype event =
    LogPrintf string
  | StreamSend HelloResponse "error option"
  | TimeSleep int

definition Second :: int where
  "Second = 1000000000"

text \<open>
  \<open>SayHello\<close>: the context is not inspected; the result is the pair of Go's
  \<open>(*pb.HelloResponse, error)\<close>, here always a response.
\<close>

definition SayHello :: "'ctx \<Rightarrow> 'a HelloRequest_scheme \<Rightarrow> event list \<times> (error + HelloResponse)" where
  "SayHello ctx req =
     (let log = [LogPrintf (Sprintf ''Received request from: %s'' [AStr (GetName req)])];
          response = \<lparr>Message = Sprintf ''Hello, %s! Welcome to gRPC with Go!'' [AStr (GetName req)],
                      Count = 1\<rparr>
      in (log, Inr response))"

text \<open>
  \<open>SayHelloMultiple\<close>. The stream is whatever implements \<open>Send\<close>: a state of any
  type \<open>'s\<close> and a function that takes the state and a response and returns Go's
  \<open>error\<close> (\<open>None\<close> for \<open>nil\<close>) with the state after the call. The loop variable
  \<open>i\<close> is a Go \<open>int\<close>; it runs from 1 to 6 only, so it is an \<open>int\<close> here and
  \<open>int32(i)\<close> is the truncating conversion \<open>word_of_int\<close>.
\<close>

function SayHelloMultiple_loop ::
  "('s \<Rightarrow> HelloResponse \<Rightarrow> error option \<times> 's) \<Rightarrow> 'a HelloRequest_scheme \<Rightarrow> int \<Rightarrow> 's \<Rightarrow> event list
     \<Rightarrow> error option \<times> 's \<times> event list" where
  "SayHelloMultiple_loop send req i stream tr =
     (if i \<le> 5 then
        let response =
              \<lparr>Message = Sprintf ''Hello #%d, %s! Streaming response %d of 5''
                           [AInt i, AStr (GetName req), AInt i],
               Count = word_of_int i\<rparr>
        in case send stream response of
             (Some err, stream') \<Rightarrow> (Some err, stream', tr @ [StreamSend response (Some err)])
           | (None, stream') \<Rightarrow>
               SayHelloMultiple_loop send req (i + 1) stream'
                 (tr @ [StreamSend response None,
                        LogPrintf (Sprintf ''Sent streaming response #%d to %s''
                                     [AInt i, AStr (GetName req)]),
                        TimeSleep (1 * Second)])
      else (None, stream, tr))"
  by pat_completeness auto
termination
  by (relation "measure (\<lambda>(send, req, i, stream, tr). nat (6 - i))") auto

declare SayHelloMultiple_loop.simps [simp del]

definition SayHelloMultiple ::
  "('s \<Rightarrow> HelloResponse \<Rightarrow> error option \<times> 's) \<Rightarrow> 'a HelloRequest_scheme \<Rightarrow> 's
     \<Rightarrow> error option \<times> 's \<times> event list" where
  "SayHelloMultiple send req stream =
     SayHelloMultiple_loop send req 1 stream
       [LogPrintf (Sprintf ''Received streaming request from: %s'' [AStr (GetName req)])]"

text \<open>
  Two streams to run the handler on: one whose \<open>Send\<close> always succeeds, and one that
  accepts a given number of responses and fails every later \<open>Send\<close> with a given
  error. Their state is the list of responses accepted so far.
\<close>

definition send_ok :: "HelloResponse list \<Rightarrow> HelloResponse \<Rightarrow> error option \<times> HelloResponse list" where
  "send_ok accepted response = (None, accepted @ [response])"

definition send_upto ::
  "nat \<Rightarrow> error \<Rightarrow> HelloResponse list \<Rightarrow> HelloResponse \<Rightarrow> error option \<times> HelloResponse list" where
  "send_upto n err accepted response =
     (if length accepted < n then (None, accepted @ [response]) else (Some err, accepted))"

section \<open>Contexts and deadlines\<close>

text \<open>
  A Go \<open>context.Context\<close> as the client builds it: \<open>context.Background()\<close>, or
  \<open>context.WithTimeout\<close> of a parent and a duration in nanoseconds. Its timeout is
  the time left until its deadline when the call that takes it starts; \<open>main\<close>
  makes the context right before the call, so this is the duration given, cut down to
  the parent's when that is shorter. The background context has none.
\<close>

datatype "context" = Background | WithTimeout "context" int

fun timeout_of :: "context \<Rightarrow> int option" where
  "timeout_of Background = None"
| "timeout_of (WithTimeout parent d) =
     (case timeout_of parent of None \<Rightarrow> Some d | Some d' \<Rightarrow> Some (min d d'))"

text \<open>
  Modelled from the spec: the deadline of a unary call, which Go's \<open>context\<close> package
  and the gRPC run time enforce and which is not among the sources. The spec has the
  unary call "bound to a 5-second timeout measured from call initiation; if no response
  arrives within the timeout, the call fails with a deadline-exceeded condition", and
  has no timeout on a call under the background context. What the remote side does on
  a call is the time, in nanoseconds from call initiation, after which its result
  arrives (\<open>None\<close> when none ever arrives) and that result. A call under a timeout
  returns the result when it arrives within the timeout and the deadline-exceeded error
  otherwise; a call under no timeout waits for the result, and never returns (\<open>None\<close>)
  when none arrives. The error's text is the one the gRPC run time gives that status.
\<close>

definition DeadlineExceeded :: error where
  "DeadlineExceeded = Error ''rpc error: code = DeadlineExceeded desc = context deadline exceeded''"

definition unary_call :: "context \<Rightarrow> int option \<times> (error + 'a) \<Rightarrow> (error + 'a) option" where
  "unary_call ctx remote =
     (case timeout_of ctx of
        None \<Rightarrow> (case fst remote of None \<Rightarrow> None | Some t \<Rightarrow> Some (snd remote))
      | Some d \<Rightarrow>
          (case fst remote of
             None \<Rightarrow> Some (Inl DeadlineExceeded)
           | Some t \<Rightarrow> if t \<le> d then Some (snd remote) else Some (Inl DeadlineExceeded)))"

definition no_response_within :: "int \<Rightarrow> int option \<times> (error + 'a) \<Rightarrow> bool" where
  "no_response_within d remote = (case fst remote of None \<Rightarrow> True | Some t \<Rightarrow> d < t)"

section \<open>The client's receive loop\<close>

text \<open>
  What the client does besides returning: it prints to standard output, writes log
  lines, calls the two methods of the client stub (an \<open>Invoke\<close> event carries the
  method's name, the context and the request), and \<open>log.Fatalf\<close> writes a log line
  and ends the process with status 1. The loop of \<open>main\<close> over \<open>stream.Recv()\<close>
  either leaves by \<open>break\<close> or ends the process.
\<close>

datatype client_event =
    Stdout string
  | LogPrintln string
  | LogFatalf string
  | Invoke string "context" HelloRequest

datatype loop_end = Break | Exit int

definition check_mark :: string where
  "check_mark = [CHR 0xE2, CHR 0x9C, CHR 0x85]"

definition envelope :: string where
  "envelope = [CHR 0xF0, CHR 0x9F, CHR 0x93, CHR 0xA8]"

definition Println :: "string \<Rightarrow> client_event" where
  "Println s = Stdout (s @ [CHR 0x0A])"

definition Printf :: "string \<Rightarrow> arg list \<Rightarrow> client_event" where
  "Printf fmt args = Stdout (Sprintf fmt args)"

text \<open>
  The incoming stream is the sequence of results of the successive calls to
  \<open>stream.Recv()\<close>, each an error or a response; \<open>Recv\<close> takes the head and leaves
  the rest. The source's \<open>for\<close> has no bound, so the loop is a partial function:
  \<open>None\<close> is a loop that never ends.
\<close>

partial_function (option) recv_loop ::
  "(error + HelloResponse) stream \<Rightarrow> client_event list \<Rightarrow> (loop_end \<times> client_event list) option" where
  "recv_loop stream out =
     (case shd stream of
        Inl err \<Rightarrow>
          if err = io_EOF then
            Some (Break, out @ [Println ([CHR 0x0A] @ check_mark @ '' Streaming complete!'')])
          else
            Some (Exit 1, out @ [LogFatalf (Sprintf ''Error receiving stream: %v'' [AErr err])])
      | Inr response \<Rightarrow>
          recv_loop (stl stream)
            (out @ [Printf (envelope @ '' Received: %s (Count: %d)'' @ [CHR 0x0A])
                      [AStr (GetMessage response), AInt (sint (GetCount response))]]))"

text \<open>
  \<open>main\<close> of the client. Its surroundings are parameters: what \<open>grpc.NewClient\<close>
  returned (an error or none), and the two methods of the client stub, each taking the
  context and the request. The unary method may never return (\<open>None\<close>); the
  streaming method returns an error or the stream to receive from. The result is the
  events up to the end of the process, or up to the call or loop that never returns,
  and the exit status (\<open>None\<close> when the process never ends). \<open>log.Fatalf\<close> ends
  the process with status 1. The deferred \<open>conn.Close()\<close> and \<open>cancel()\<close> write
  nothing and are left out. \<open>string(make([]byte, 50))\<close> is fifty zero bytes.
\<close>

definition rocket :: string where
  "rocket = [CHR 0xF0, CHR 0x9F, CHR 0x9A, CHR 0x80]"

definition telephone :: string where
  "telephone = [CHR 0xF0, CHR 0x9F, CHR 0x93, CHR 0x9E]"

definition antenna :: string where
  "antenna = [CHR 0xF0, CHR 0x9F, CHR 0x93, CHR 0xA1]"

definition main ::
  "error option
     \<Rightarrow> (context \<Rightarrow> HelloRequest \<Rightarrow> (error + HelloResponse) option)
     \<Rightarrow> (context \<Rightarrow> HelloRequest \<Rightarrow> error + (error + HelloResponse) stream)
     \<Rightarrow> client_event list \<times> int option" where
  "main dial client_SayHello client_SayHelloMultiple =
     (case dial of
        Some err \<Rightarrow> ([LogFatalf (Sprintf ''Failed to connect: %v'' [AErr err])], Some 1)
      | None \<Rightarrow>
          let out1 = [LogPrintln (rocket @ '' gRPC Client started...''),
                      LogPrintln (''='' @ replicate 50 (CHR 0x00) @ ''=''),
                      Println ([CHR 0x0A] @ telephone @ '' Making simple SayHello call...'')];
              ctx = WithTimeout Background (5 * Second);
              out2 = out1 @ [Invoke ''SayHello'' ctx \<lparr>Name = ''Alice''\<rparr>]
          in case client_SayHello ctx \<lparr>Name = ''Alice''\<rparr> of
               None \<Rightarrow> (out2, None)
             | Some (Inl err) \<Rightarrow>
                 (out2 @ [LogFatalf (Sprintf ''Error calling SayHello: %v'' [AErr err])], Some 1)
             | Some (Inr response) \<Rightarrow>
                 let out3 = out2 @
                       [Printf (check_mark @ '' Response: %s'' @ [CHR 0x0A])
                          [AStr (GetMessage response)],
                        Printf (''   Count: %d'' @ [CHR 0x0A]) [AInt (sint (GetCount response))],
                        Println ([CHR 0x0A] @ antenna
                                   @ '' Making streaming SayHelloMultiple call...''),
                        Invoke ''SayHelloMultiple'' Background \<lparr>Name = ''Bob''\<rparr>]
                 in case client_SayHelloMultiple Background \<lparr>Name = ''Bob''\<rparr> of
                      Inl err \<Rightarrow>
                        (out3 @ [LogFatalf (Sprintf ''Error calling SayHelloMultiple: %v''
                                              [AErr err])],
                         Some 1)
                    | Inr stream \<Rightarrow>
                        (case recv_loop stream out3 of
                           None \<Rightarrow> (out3, None)
                         | Some (Exit status, out4) \<Rightarrow> (out4, Some status)
                         | Some (Break, out4) \<Rightarrow>
                             (out4 @ [Println ([CHR 0x0A] @ replicate 50 (CHR 0x00)),
                                      LogPrintln (check_mark @ '' Client finished successfully!'')],
                              Some 0)))"

section \<open>Observations on a run\<close>

text \<open>
  The responses handed to \<open>Send\<close> during a run, in order, and the sleeps of a run.
\<close>

fun sent_of :: "event \<Rightarrow> HelloResponse list" where
  "sent_of (StreamSend response res) = [response]"
| "sent_of _ = []"

definition sends :: "event list \<Rightarrow> HelloResponse list" where
  "sends tr = concat (map sent_of tr)"

fun is_sleep :: "event \<Rightarrow> bool" where
  "is_sleep (TimeSleep d) = True"
| "is_sleep _ = False"

fun send_failed :: "event \<Rightarrow> bool" where
  "send_failed (StreamSend response (Some err)) = True"
| "send_failed _ = False"

text \<open>
  The spec's wording of the streaming contract, to compare the handler with: item
  \<open>i\<close> has the message \<open>Hello #{i}, {name}! Streaming response {i} of 5\<close> and the
  count \<open>i\<close>. One round of the loop that sends item \<open>i\<close> successfully is the send, the
  log line and the one-second sleep.
\<close>

definition spec_item :: "string \<Rightarrow> int \<Rightarrow> HelloResponse" where
  "spec_item name i =
     \<lparr>Message = ''Hello #'' @ fmt_d i @ '', '' @ name @ ''! Streaming response '' @ fmt_d i @ '' of 5'',
      Count = word_of_int i\<rparr>"

definition loop_round :: "string \<Rightarrow> int \<Rightarrow> event list" where
  "loop_round name i =
     [StreamSend (spec_item name i) None,
      LogPrintf (''Sent streaming response #'' @ fmt_d i @ '' to '' @ name),
      TimeSleep 1000000000]"

fun loop_tail :: "string \<Rightarrow> int \<Rightarrow> error option \<Rightarrow> event list" where
  "loop_tail name i None = []"
| "loop_tail name i (Some err) = [StreamSend (spec_item name i) (Some err)]"

text \<open>
  A run of the handler is what it returns, the stream afterwards and the events. What
  a run emitted is the sequence of (message, count) pairs it handed to \<open>Send\<close>.
\<close>

definition returned :: "error option \<times> 's \<times> event list \<Rightarrow> error option" where
  "returned run = fst run"

definition trace :: "error option \<times> 's \<times> event list \<Rightarrow> event list" where
  "trace run = snd (snd run)"

definition emitted :: "error option \<times> 's \<times> event list \<Rightarrow> (string \<times> 32 word) list" where
  "emitted run = map (\<lambda>response. (Message response, Count response)) (sends (trace run))"

text \<open>
  The lines the client writes: one for a received response, one when the stream has
  ended, and the fatal log line for a receive error.
\<close>

definition received_line :: "HelloResponse \<Rightarrow> client_event" where
  "received_line response =
     Stdout (envelope @ '' Received: '' @ Message response @ '' (Count: ''
               @ fmt_d (sint (Count response)) @ '')'' @ [CHR 0x0A])"

definition complete_line :: client_event where
  "complete_line = Stdout ([CHR 0x0A] @ check_mark @ '' Streaming complete!'' @ [CHR 0x0A])"

definition fatal_line :: "error \<Rightarrow> client_event" where
  "fatal_line err = LogFatalf (''Error receiving stream: '' @ Error_text err)"

section \<open>Formatting facts\<close>

lemma digits_small: "n < 10 \<Longrightarrow> digits n = [''0123456789'' ! n]"
  by (subst digits.simps) simp

lemma Sprintf_hello [simp]:
  "Sprintf ''Hello, %s! Welcome to gRPC with Go!'' [AStr n] = ''Hello, '' @ n @ ''! Welcome to gRPC with Go!''"
  by simp

lemma Sprintf_received [simp]:
  "Sprintf ''Received request from: %s'' [AStr n] = ''Received request from: '' @ n"
  by simp

lemma fmt_d_digit: "fmt_d 1 = ''1''" "fmt_d 2 = ''2''" "fmt_d 3 = ''3''" "fmt_d 4 = ''4''" "fmt_d 5 = ''5''"
  by (simp_all add: fmt_d_def digits_small)

lemma Sprintf_item:
  "Sprintf ''Hello #%d, %s! Streaming response %d of 5'' [AInt i, AStr n, AInt i]
     = ''Hello #'' @ fmt_d i @ '', '' @ n @ ''! Streaming response '' @ fmt_d i @ '' of 5''"
  by simp

lemma Sprintf_sent:
  "Sprintf ''Sent streaming response #%d to %s'' [AInt i, AStr n] = ''Sent streaming response #'' @ fmt_d i @ '' to '' @ n"
  by simp

lemma Sprintf_streaming_request:
  "Sprintf ''Received streaming request from: %s'' [AStr n] = ''Received streaming request from: '' @ n"
  by simp

section \<open>The streaming loop, round by round\<close>

lemma loop_done: "\<not> i \<le> 5 \<Longrightarrow> SayHelloMultiple_loop send req i stream tr = (None, stream, tr)"
  by (subst SayHelloMultiple_loop.simps) simp

lemma loop_fail:
  "i \<le> 5 \<Longrightarrow> send stream (spec_item (Name req) i) = (Some err, s1) \<Longrightarrow>
   SayHelloMultiple_loop send req i stream tr =
     (Some err, s1, tr @ [StreamSend (spec_item (Name req) i) (Some err)])"
  by (subst SayHelloMultiple_loop.simps)
     (simp only: Sprintf_item Let_def GetName_def spec_item_def if_True prod.case option.case)

lemma loop_next:
  "i \<le> 5 \<Longrightarrow> send stream (spec_item (Name req) i) = (None, s1) \<Longrightarrow>
   SayHelloMultiple_loop send req i stream tr =
     SayHelloMultiple_loop send req (i + 1) s1 (tr @ loop_round (Name req) i)"
  by (subst SayHelloMultiple_loop.simps)
     (simp only: Sprintf_item Sprintf_sent Let_def GetName_def spec_item_def loop_round_def Second_def
        mult_1 if_True prod.case option.case)


lemma loop_shape:
  "nat (6 - i) = n \<Longrightarrow> i \<le> 6 \<Longrightarrow>
   SayHelloMultiple_loop send req i stream tr = (res, stream', tr') \<Longrightarrow>
   \<exists>k. i - 1 \<le> k \<and> k \<le> 5 \<and>
       tr' = tr @ concat (map (loop_round (Name req)) [i..k]) @ loop_tail (Name req) (k + 1) res \<and>
       (res = None \<longleftrightarrow> k = 5)"
proof (induction n arbitrary: i stream tr)
  case 0
  then have "i = 6" by simp
  with "0.prems"(3) have "res = None" "tr' = tr" by (simp_all add: loop_done)
  with \<open>i = 6\<close> show ?case by (intro exI[of _ 5]) simp
next
  case (Suc n)
  then have i: "i \<le> 5" by simp
  let ?r = "spec_item (Name req) i"
  obtain e s1 where snd: "send stream ?r = (e, s1)" by (cases "send stream ?r")
  show ?case
  proof (cases e)
    case (Some err)
    with i snd Suc.prems(3) have "res = Some err" "tr' = tr @ [StreamSend ?r (Some err)]"
      by (auto simp add: loop_fail)
    with i show ?thesis by (intro exI[of _ "i - 1"]) simp
  next
    case None
    with i snd Suc.prems(3)
    have call: "SayHelloMultiple_loop send req (i + 1) s1 (tr @ loop_round (Name req) i) = (res, stream', tr')"
      by (simp add: loop_next)
    from Suc.prems(1) i have "nat (6 - (i + 1)) = n" "i + 1 \<le> 6" by simp_all
    from Suc.IH[OF this call]
    obtain k where k: "i \<le> k" "k \<le> 5"
      "tr' = (tr @ loop_round (Name req) i) @ concat (map (loop_round (Name req)) [i + 1..k])
               @ loop_tail (Name req) (k + 1) res"
      "res = None \<longleftrightarrow> k = 5" by auto
    from k(1) have "[i..k] = i # [i + 1..k]" by (simp add: upto_rec1)
    with k show ?thesis by (intro exI[of _ k]) simp
  qed
qed

lemma SayHelloMultiple_shape:
  assumes "SayHelloMultiple send req stream = (res, stream', tr)"
  shows "\<exists>k. 0 \<le> k \<and> k \<le> 5 \<and>
       tr = LogPrintf (''Received streaming request from: '' @ Name req)
              # concat (map (loop_round (Name req)) [1..k]) @ loop_tail (Name req) (k + 1) res \<and>
       (res = None \<longleftrightarrow> k = 5)"
  using loop_shape[OF refl _ assms[unfolded SayHelloMultiple_def]]
  by (simp only: Sprintf_streaming_request GetName_def) simp


lemma run_shape:
  "\<exists>k. 0 \<le> k \<and> k \<le> 5 \<and>
       trace (SayHelloMultiple send req stream) =
         LogPrintf (''Received streaming request from: '' @ Name req)
           # concat (map (loop_round (Name req)) [1..k])
           @ loop_tail (Name req) (k + 1) (returned (SayHelloMultiple send req stream)) \<and>
       (returned (SayHelloMultiple send req stream) = None \<longleftrightarrow> k = 5)"
proof -
  obtain res stream' tr where run: "SayHelloMultiple send req stream = (res, stream', tr)"
    by (cases "SayHelloMultiple send req stream")
  from SayHelloMultiple_shape[OF run] show ?thesis
    by (simp add: run returned_def trace_def)
qed

lemma sends_rounds: "sends (concat (map (loop_round name) ks)) = map (spec_item name) ks"
  by (induction ks) (simp_all add: sends_def loop_round_def)

lemma sends_append: "sends (xs @ ys) = sends xs @ sends ys"
  by (simp add: sends_def)

lemma sends_Log: "sends (LogPrintf l # xs) = sends xs"
  by (simp add: sends_def)

lemma sends_tail: "sends (loop_tail name i res) = (case res of None \<Rightarrow> [] | Some e \<Rightarrow> [spec_item name i])"
  by (cases res) (simp_all add: sends_def)

lemma failed_rounds: "ev \<in> set (concat (map (loop_round name) ks)) \<Longrightarrow> \<not> send_failed ev"
  by (auto simp: loop_round_def)

lemma upto_1_5: "[1..5] = [1, 2, 3, 4, (5::int)]"
  by (simp add: upto_rec1)

lemma spec_item_digit:
  "spec_item name 1 = \<lparr>Message = ''Hello #1, '' @ name @ ''! Streaming response 1 of 5'', Count = 1\<rparr>"
  "spec_item name 2 = \<lparr>Message = ''Hello #2, '' @ name @ ''! Streaming response 2 of 5'', Count = 2\<rparr>"
  "spec_item name 3 = \<lparr>Message = ''Hello #3, '' @ name @ ''! Streaming response 3 of 5'', Count = 3\<rparr>"
  "spec_item name 4 = \<lparr>Message = ''Hello #4, '' @ name @ ''! Streaming response 4 of 5'', Count = 4\<rparr>"
  "spec_item name 5 = \<lparr>Message = ''Hello #5, '' @ name @ ''! Streaming response 5 of 5'', Count = 5\<rparr>"
  by (simp_all add: spec_item_def fmt_d_digit)




lemma run_shapeE:
  obtains k where "0 \<le> k" "k \<le> 5"
    "trace (SayHelloMultiple send req stream) =
         LogPrintf (''Received streaming request from: '' @ Name req)
           # concat (map (loop_round (Name req)) [1..k])
           @ loop_tail (Name req) (k + 1) (returned (SayHelloMultiple send req stream))"
    "returned (SayHelloMultiple send req stream) = None \<longleftrightarrow> k = 5"
  using run_shape[of send req stream] by (elim exE conjE)


lemma run_no_failure:
  assumes "\<forall>ev \<in> set (trace (SayHelloMultiple send req stream)). \<not> send_failed ev"
  shows "returned (SayHelloMultiple send req stream) = None"
proof (cases "returned (SayHelloMultiple send req stream)")
  case (Some e)
  let ?run = "SayHelloMultiple send req stream"
  obtain k where k:
    "trace ?run = LogPrintf (''Received streaming request from: '' @ Name req)
           # concat (map (loop_round (Name req)) [1..k]) @ loop_tail (Name req) (k + 1) (returned ?run)"
    by (rule run_shapeE[of send req stream])
  have "StreamSend (spec_item (Name req) (k + 1)) (Some e) \<in> set (trace ?run)"
    unfolding k unfolding Some by simp
  with assms have "\<not> send_failed (StreamSend (spec_item (Name req) (k + 1)) (Some e))"
    by (rule bspec)
  then show ?thesis by simp
qed simp

lemma run_complete:
  assumes "returned (SayHelloMultiple send req stream) = None"
  shows "sends (trace (SayHelloMultiple send req stream)) = map (spec_item (Name req)) [1, 2, 3, 4, 5]"
proof -
  let ?run = "SayHelloMultiple send req stream"
  obtain k where k: 
    "trace ?run = LogPrintf (''Received streaming request from: '' @ Name req)
           # concat (map (loop_round (Name req)) [1..k]) @ loop_tail (Name req) (k + 1) (returned ?run)"
    "returned ?run = None \<longleftrightarrow> k = 5"
    by (rule run_shapeE[of send req stream])
  from k(2) assms have k5: "k = 5" by simp
  show ?thesis
    unfolding k(1) unfolding assms k5 upto_1_5
    by (simp only: sends_Log sends_append sends_rounds loop_tail.simps) (simp add: sends_def)
qed

lemma sint_small: "1 \<le> i \<Longrightarrow> i \<le> 5 \<Longrightarrow> sint (word_of_int i :: 32 word) = i"
  by (simp add: sint_sbintrunc' signed_take_bit_int_eq_self)

lemma Count_spec_item: "1 \<le> i \<Longrightarrow> i \<le> 5 \<Longrightarrow> sint (Count (spec_item name i)) = i"
  by (simp add: spec_item_def sint_small)

lemma spec_item_inj:
  assumes "spec_item name i = spec_item name j" "1 \<le> i" "i \<le> 5" "1 \<le> j" "j \<le> 5"
  shows "i = j"
proof -
  from assms(1) have "sint (Count (spec_item name i)) = sint (Count (spec_item name j))" by simp
  with assms(2-) show ?thesis by (simp add: Count_spec_item)
qed

lemma sends_run:
  obtains m where "0 \<le> m" "m \<le> 5"
    "sends (trace (SayHelloMultiple send req stream)) = map (spec_item (Name req)) [1..m]"
    "returned (SayHelloMultiple send req stream) = None \<longrightarrow> m = 5"
proof -
  let ?run = "SayHelloMultiple send req stream"
  obtain k where k: "0 \<le> k" "k \<le> 5"
    "trace ?run = LogPrintf (''Received streaming request from: '' @ Name req)
           # concat (map (loop_round (Name req)) [1..k]) @ loop_tail (Name req) (k + 1) (returned ?run)"
    "returned ?run = None \<longleftrightarrow> k = 5"
    by (rule run_shapeE[of send req stream])
  show thesis
  proof (cases "returned ?run")
    case None
    with k(4) have k5: "k = 5" by simp
    have "sends (trace ?run) = map (spec_item (Name req)) [1..5]"
      unfolding k(3) unfolding None k5
      by (simp only: sends_Log sends_append sends_rounds loop_tail.simps) (simp add: sends_def)
    then show thesis by (intro that[of 5]) simp_all
  next
    case (Some e)
    with k have k4: "k + 1 \<le> 5" by simp
    from k(1) have "[1..k + 1] = [1..k] @ [k + 1]" by (simp add: upto_rec2)
    then have "sends (trace ?run) = map (spec_item (Name req)) [1..k + 1]"
      unfolding k(3) unfolding Some
      by (simp only: sends_Log sends_append sends_rounds sends_tail) simp
    with k(1) k4 Some show thesis by (intro that[of "k + 1"]) simp_all
  qed
qed

lemma loop_next_simp:
  "i \<le> 5 \<Longrightarrow> fst (send stream (spec_item (Name req) i)) = None \<Longrightarrow>
   SayHelloMultiple_loop send req i stream tr =
     SayHelloMultiple_loop send req (i + 1) (snd (send stream (spec_item (Name req) i)))
       (tr @ loop_round (Name req) i)"
  by (rule loop_next) (simp_all add: prod_eq_iff)

lemma loop_fail_simp:
  "i \<le> 5 \<Longrightarrow> fst (send stream (spec_item (Name req) i)) \<noteq> None \<Longrightarrow>
   SayHelloMultiple_loop send req i stream tr =
     (fst (send stream (spec_item (Name req) i)), snd (send stream (spec_item (Name req) i)),
      tr @ [StreamSend (spec_item (Name req) i) (fst (send stream (spec_item (Name req) i)))])"
  using loop_fail[of i send stream req "the (fst (send stream (spec_item (Name req) i)))"
                    "snd (send stream (spec_item (Name req) i))" tr]
  by (simp add: prod_eq_iff)

lemma run_send_ok:
  "SayHelloMultiple send_ok req accepted =
     (None,
      accepted @ map (spec_item (Name req)) [1, 2, 3, 4, 5],
      LogPrintf (''Received streaming request from: '' @ Name req)
        # loop_round (Name req) 1 @ loop_round (Name req) 2 @ loop_round (Name req) 3
        @ loop_round (Name req) 4 @ loop_round (Name req) 5)"
  unfolding SayHelloMultiple_def Sprintf_streaming_request GetName_def
  by (simp add: loop_next_simp loop_done send_ok_def)

lemma run_send_upto_2:
  "SayHelloMultiple (send_upto 2 err) req [] =
     (Some err,
      map (spec_item (Name req)) [1, 2],
      LogPrintf (''Received streaming request from: '' @ Name req)
        # loop_round (Name req) 1 @ loop_round (Name req) 2
        @ [StreamSend (spec_item (Name req) 3) (Some err)])"
  unfolding SayHelloMultiple_def Sprintf_streaming_request GetName_def
  by (simp add: loop_next_simp loop_fail_simp loop_done send_upto_def)

lemma sleeps_rounds:
  "filter is_sleep (concat (map (loop_round name) ks)) = replicate (length ks) (TimeSleep 1000000000)"
  by (induction ks) (simp_all add: loop_round_def)

lemma sleeps_tail: "filter is_sleep (loop_tail name i res) = []"
  by (cases res) simp_all

section \<open>The client's loop, receive by receive\<close>

lemma Printf_received:
  "Printf (envelope @ '' Received: %s (Count: %d)'' @ [CHR 0x0A])
     [AStr (GetMessage response), AInt (sint (GetCount response))] = received_line response"
  by (simp add: Printf_def envelope_def received_line_def GetMessage_def GetCount_def)

lemma Println_complete:
  "Println ([CHR 0x0A] @ check_mark @ '' Streaming complete!'') = complete_line"
  by (simp add: Println_def complete_line_def)

lemma Fatalf_receiving:
  "LogFatalf (Sprintf ''Error receiving stream: %v'' [AErr err]) = fatal_line err"
  by (simp add: fatal_line_def)

lemma recv_loop_EOF: "shd stream = Inl io_EOF \<Longrightarrow> recv_loop stream out = Some (Break, out @ [complete_line])"
  by (subst recv_loop.simps) (simp only: Println_complete sum.case simp_thms if_True)

lemma recv_loop_error:
  "shd stream = Inl err \<Longrightarrow> err \<noteq> io_EOF \<Longrightarrow> recv_loop stream out = Some (Exit 1, out @ [fatal_line err])"
  by (subst recv_loop.simps) (simp only: Fatalf_receiving sum.case if_False)

lemma recv_loop_item:
  "shd stream = Inr response \<Longrightarrow>
   recv_loop stream out = recv_loop (stl stream) (out @ [received_line response])"
  by (subst recv_loop.simps) (simp only: Printf_received sum.case)

lemma recv_loop_items:
  "stake n stream = map Inr rs \<Longrightarrow>
   recv_loop stream out = recv_loop (sdrop n stream) (out @ map received_line rs)"
proof (induction n arbitrary: stream rs out)
  case 0
  then show ?case by simp
next
  case (Suc n)
  then obtain r rs' where rs: "rs = r # rs'" "shd stream = Inr r" "stake n (stl stream) = map Inr rs'"
    by (cases rs) auto
  from Suc.IH[OF rs(3)] rs(1,2) show ?case
    by (simp add: recv_loop_item)
qed

lemma recv_loop_ends_normally:
  assumes "stake n stream = map Inr rs" "stream !! n = Inl io_EOF"
  shows "recv_loop stream out = Some (Break, out @ map received_line rs @ [complete_line])"
proof -
  from assms(2) have "shd (sdrop n stream) = Inl io_EOF" by (simp add: sdrop_simps)
  then show ?thesis
    unfolding recv_loop_items[OF assms(1)] by (simp add: recv_loop_EOF)
qed

lemma recv_loop_ends_fatally:
  assumes "stake n stream = map Inr rs" "stream !! n = Inl err" "err \<noteq> io_EOF"
  shows "recv_loop stream out = Some (Exit 1, out @ map received_line rs @ [fatal_line err])"
proof -
  from assms(2) have "shd (sdrop n stream) = Inl err" by (simp add: sdrop_simps)
  then show ?thesis
    unfolding recv_loop_items[OF assms(1)] using assms(3) by (simp add: recv_loop_error)
qed

lemma recv_loop_Some_stops:
  "recv_loop stream out = Some y \<Longrightarrow> \<exists>j e. stream !! j = Inl e"
  apply (erule recv_loop.raw_induct[rotated 1])
  subgoal premises prems for f s acc z
  proof (cases "shd s")
    case (Inl e)
    then have "s !! 0 = Inl e" by simp
    then show ?thesis by blast
  next
    case (Inr r)
    with prems(2) have "f (stl s)
            (acc @ [Printf (envelope @ '' Received: %s (Count: %d)'' @ [CHR 0x0A])
                      [AStr (GetMessage r), AInt (sint (GetCount r))]]) = Some z"
      by (simp only: sum.case)
    from prems(1)[OF this] obtain j e where "stl s !! j = Inl e" by blast
    then have "s !! Suc j = Inl e" by simp
    then show ?thesis by blast
  qed
  done

lemma recv_loop_never_ends:
  assumes "\<forall>j. \<exists>r. stream !! j = Inr r"
  shows "recv_loop stream out = None"
proof (cases "recv_loop stream out")
  case (Some y)
  from recv_loop_Some_stops[OF this] obtain j e where "stream !! j = Inl e" by blast
  with assms show ?thesis by (metis sum.distinct(1))
qed simp

lemma first_stop:
  assumes "stream !! j = Inl e"
  shows "\<exists>n rs e'. stake n stream = map Inr rs \<and> stream !! n = Inl e'"
proof -
  define n where "n = (LEAST i. \<exists>e'. stream !! i = Inl e')"
  from assms have ex: "\<exists>e'. stream !! j = Inl e'" by blast
  have stop: "\<exists>e'. stream !! n = Inl e'"
    unfolding n_def by (rule LeastI[of "\<lambda>i. \<exists>e'. stream !! i = Inl e'", OF ex])
  have before: "\<exists>r. stream !! i = Inr r" if "i < n" for i
  proof (cases "stream !! i")
    case (Inl e')
    then have "n \<le> i" unfolding n_def by (intro Least_le) blast
    with that show ?thesis by simp
  qed blast
  have "stake n stream = map Inr (map projr (stake n stream))"
  proof (rule nth_equalityI)
    fix i assume "i < length (stake n stream)"
    then have i: "i < n" by simp
    with before obtain r where "stream !! i = Inr r" by blast
    with i show "stake n stream ! i = map Inr (map projr (stake n stream)) ! i" by simp
  qed simp
  with stop show ?thesis by blast
qed

section \<open>The client's \<open>main\<close>, call by call\<close>

lemma recv_loop_extends:
  "recv_loop stream out = Some y \<Longrightarrow> \<exists>rest. snd y = out @ rest"
  apply (erule recv_loop.raw_induct[rotated 1])
  subgoal premises prems for f s acc z
  proof (cases "shd s")
    case (Inl e)
    with prems(2) show ?thesis by (cases "e = io_EOF") auto
  next
    case (Inr r)
    with prems(2) have "f (stl s)
            (acc @ [Printf (envelope @ '' Received: %s (Count: %d)'' @ [CHR 0x0A])
                      [AStr (GetMessage r), AInt (sint (GetCount r))]]) = Some z"
      by (simp only: sum.case)
    from prems(1)[OF this] obtain rest where
      "snd z = (acc @ [Printf (envelope @ '' Received: %s (Count: %d)'' @ [CHR 0x0A])
                      [AStr (GetMessage r), AInt (sint (GetCount r))]]) @ rest"
      by (elim exE)
    then have "snd z = acc @ ([Printf (envelope @ '' Received: %s (Count: %d)'' @ [CHR 0x0A])
                      [AStr (GetMessage r), AInt (sint (GetCount r))]] @ rest)"
      by (simp only: append_assoc)
    then show ?thesis by (rule exI)
  qed
  done

lemma Sprintf_calling:
  "Sprintf ''Error calling SayHello: %v'' [AErr err] = ''Error calling SayHello: '' @ Error_text err"
  by simp

lemma main_unary_error:
  assumes "client_SayHello (WithTimeout Background (5 * Second)) \<lparr>Name = ''Alice''\<rparr> = Some (Inl err)"
  shows "drop 3 (fst (main None client_SayHello client_SayHelloMultiple)) =
           [Invoke ''SayHello'' (WithTimeout Background 5000000000) \<lparr>Name = ''Alice''\<rparr>,
            LogFatalf (''Error calling SayHello: '' @ Error_text err)]
         \<and> snd (main None client_SayHello client_SayHelloMultiple) = Some 1"
  unfolding main_def Let_def assms Sprintf_calling
  by (simp add: Second_def)

lemma main_streaming_context:
  assumes "client_SayHello (WithTimeout Background (5 * Second)) \<lparr>Name = ''Alice''\<rparr> = Some (Inr response)"
  shows "take 1 (drop 7 (fst (main None client_SayHello client_SayHelloMultiple))) =
           [Invoke ''SayHelloMultiple'' Background \<lparr>Name = ''Bob''\<rparr>]"
proof (cases "client_SayHelloMultiple Background \<lparr>Name = ''Bob''\<rparr>")
  case (Inl err)
  show ?thesis
    unfolding main_def Let_def assms Inl by simp
next
  case (Inr stream)
  let ?out3 = "([LogPrintln (rocket @ '' gRPC Client started...''),
                      LogPrintln (''='' @ replicate 50 (CHR 0x00) @ ''=''),
                      Println ([CHR 0x0A] @ telephone @ '' Making simple SayHello call...'')]
                 @ [Invoke ''SayHello'' (WithTimeout Background (5 * Second)) \<lparr>Name = ''Alice''\<rparr>]) @
                       [Printf (check_mark @ '' Response: %s'' @ [CHR 0x0A])
                          [AStr (GetMessage response)],
                        Printf (''   Count: %d'' @ [CHR 0x0A]) [AInt (sint (GetCount response))],
                        Println ([CHR 0x0A] @ antenna
                                   @ '' Making streaming SayHelloMultiple call...''),
                        Invoke ''SayHelloMultiple'' Background \<lparr>Name = ''Bob''\<rparr>]"
  have pre: "take 1 (drop 7 (?out3 @ rest)) = [Invoke ''SayHelloMultiple'' Background \<lparr>Name = ''Bob''\<rparr>]" for rest
    by simp
  show ?thesis
  proof (cases "recv_loop stream ?out3")
    case None
    show ?thesis
      unfolding main_def Let_def assms Inr option.case sum.case None
      using pre[of "[]"] by simp
  next
    case (Some y)
    obtain e out4 where y: "y = (e, out4)" by (cases y)
    from recv_loop_extends[OF Some] y obtain rest where r: "out4 = ?out3 @ rest" by auto
    show ?thesis
    proof (cases e)
      case Break
      show ?thesis
        unfolding main_def Let_def assms Inr option.case sum.case Some y Break r
        using pre[of "rest @ [Println ([CHR 0x0A] @ replicate 50 (CHR 0x00)),
                                      LogPrintln (check_mark @ '' Client finished successfully!'')]"]
        by simp
    next
      case (Exit status)
      show ?thesis
        unfolding main_def Let_def assms Inr option.case sum.case Some y Exit r
        using pre[of rest] by simp
    qed
  qed
qed

lemma unary_call_late:
  "no_response_within (5 * Second) remote \<Longrightarrow>
   unary_call (WithTimeout Background (5 * Second)) remote = Some (Inl DeadlineExceeded)"
  by (auto simp: no_response_within_def unary_call_def split: option.splits)

section \<open>The unary operation\<close>

text \<open>
  C1. For every request (and every context), \<open>SayHello\<close> returns a response, never an
  error; its message is the text \<open>Hello, \<close>, the request's name, and
  \<open>! Welcome to gRPC with Go!\<close>, and its count is 1. For the name \<open>Alice\<close> the
  response is \<open>Hello, Alice! Welcome to gRPC with Go!\<close> with count 1.
\<close>

theorem SayHello_response:
  "snd (SayHello ctx req) =
     Inr \<lparr>Message = ''Hello, '' @ Name req @ ''! Welcome to gRPC with Go!'', Count = 1\<rparr>
   \<and> snd (SayHello ctx \<lparr>Name = ''Alice''\<rparr>) =
     Inr \<lparr>Message = ''Hello, Alice! Welcome to gRPC with Go!'', Count = 1\<rparr>"
  by (simp add: SayHello_def GetName_def)

theorem SayHello_response_witness:
  "snd (SayHello () \<lparr>Name = ''Alice''\<rparr>) =
     Inr \<lparr>Message = ''Hello, Alice! Welcome to gRPC with Go!'', Count = 1\<rparr>"
  using SayHello_response [of "()" "\<lparr>Name = ''Alice''\<rparr>"] by simp

text \<open>
  C5. A request with the empty name is served like any other: \<open>SayHello\<close> returns a
  response, not an error, and the message is the whole template around the empty
  name, \<open>Hello, ! Welcome to gRPC with Go!\<close>, which begins with \<open>Hello, !\<close>.
\<close>

theorem SayHello_empty_name:
  "snd (SayHello ctx \<lparr>Name = '''', \<dots> = rest\<rparr>) =
     Inr \<lparr>Message = ''Hello, ! Welcome to gRPC with Go!'', Count = 1\<rparr>
   \<and> prefix ''Hello, !'' ''Hello, ! Welcome to gRPC with Go!''"
  by (simp add: SayHello_def GetName_def)

text \<open>
  The message for the empty name is not the eight characters \<open>Hello, !\<close> alone.
\<close>

theorem SayHello_empty_name_counterexample:
  "snd (SayHello () \<lparr>Name = ''''\<rparr>) =
     Inr \<lparr>Message = ''Hello, ! Welcome to gRPC with Go!'', Count = 1\<rparr>
   \<and> ''Hello, ! Welcome to gRPC with Go!'' \<noteq> ''Hello, !''"
  by (simp add: SayHello_def GetName_def)

theorem SayHello_empty_name_witness:
  "snd (SayHello () \<lparr>Name = ''''\<rparr>) =
     Inr \<lparr>Message = ''Hello, ! Welcome to gRPC with Go!'', Count = 1\<rparr>"
  using SayHello_empty_name [of "()" "()"] by simp

text \<open>
  C7. \<open>SayHello\<close> is deterministic: two calls whose requests carry the same name
  return the same message, whatever their contexts and whatever else the requests
  hold; the whole result, log line included, is the same.
\<close>

theorem SayHello_deterministic:
  "GetName req1 = GetName req2 \<Longrightarrow>
   SayHello ctx1 req1 = SayHello ctx2 req2 \<and>
   (\<exists>r1 r2. snd (SayHello ctx1 req1) = Inr r1 \<and> snd (SayHello ctx2 req2) = Inr r2 \<and>
            Message r1 = Message r2)"
  by (simp add: SayHello_def)

theorem SayHello_deterministic_witness:
  "GetName \<lparr>Name = ''Alice''\<rparr> = GetName \<lparr>Name = ''Alice'', \<dots> = True\<rparr>
   \<and> SayHello () \<lparr>Name = ''Alice''\<rparr> = SayHello (5::nat) \<lparr>Name = ''Alice'', \<dots> = True\<rparr>"
proof -
  have h: "GetName \<lparr>Name = ''Alice''\<rparr> = GetName \<lparr>Name = ''Alice'', \<dots> = True\<rparr>"
    by (simp add: GetName_def)
  from SayHello_deterministic [OF h, of "()" "5::nat"] h show ?thesis by simp
qed

section \<open>The streaming operation\<close>

text \<open>
  C2. For every request name, when no \<open>Send\<close> of the run returns an error, the
  handler hands exactly five responses to \<open>Send\<close>, in order: the \<open>i\<close>-th has the
  message \<open>Hello #i, name! Streaming response i of 5\<close> and the count \<open>i\<close>; it then
  returns \<open>nil\<close>, the clean end of the stream, and nothing more is sent.
\<close>

theorem SayHelloMultiple_five:
  assumes "\<forall>ev \<in> set (trace (SayHelloMultiple send req stream)). \<not> send_failed ev"
  shows "returned (SayHelloMultiple send req stream) = None \<and>
         sends (trace (SayHelloMultiple send req stream)) =
           [\<lparr>Message = ''Hello #1, '' @ Name req @ ''! Streaming response 1 of 5'', Count = 1\<rparr>,
            \<lparr>Message = ''Hello #2, '' @ Name req @ ''! Streaming response 2 of 5'', Count = 2\<rparr>,
            \<lparr>Message = ''Hello #3, '' @ Name req @ ''! Streaming response 3 of 5'', Count = 3\<rparr>,
            \<lparr>Message = ''Hello #4, '' @ Name req @ ''! Streaming response 4 of 5'', Count = 4\<rparr>,
            \<lparr>Message = ''Hello #5, '' @ Name req @ ''! Streaming response 5 of 5'', Count = 5\<rparr>]"
  unfolding run_complete[OF run_no_failure[OF assms]] run_no_failure[OF assms]
  by (simp only: list.map spec_item_digit)

theorem SayHelloMultiple_five_witness:
  "filter send_failed (trace (SayHelloMultiple send_ok \<lparr>Name = ''Bob''\<rparr> [])) = []
   \<and> returned (SayHelloMultiple send_ok \<lparr>Name = ''Bob''\<rparr> []) = None
   \<and> sends (trace (SayHelloMultiple send_ok \<lparr>Name = ''Bob''\<rparr> [])) =
       [\<lparr>Message = ''Hello #1, Bob! Streaming response 1 of 5'', Count = 1\<rparr>,
        \<lparr>Message = ''Hello #2, Bob! Streaming response 2 of 5'', Count = 2\<rparr>,
        \<lparr>Message = ''Hello #3, Bob! Streaming response 3 of 5'', Count = 3\<rparr>,
        \<lparr>Message = ''Hello #4, Bob! Streaming response 4 of 5'', Count = 4\<rparr>,
        \<lparr>Message = ''Hello #5, Bob! Streaming response 5 of 5'', Count = 5\<rparr>]"
proof -
  have h: "\<forall>ev \<in> set (trace (SayHelloMultiple send_ok \<lparr>Name = ''Bob''\<rparr> [])). \<not> send_failed ev"
    by (simp add: run_send_ok trace_def loop_round_def)
  from SayHelloMultiple_five [OF h] h show ?thesis by (simp add: filter_empty_conv)
qed

text \<open>
  C3. If the \<open>Send\<close> of item \<open>i\<close>, for an \<open>i\<close> from 1 to 5, returns an error, the
  handler returns exactly that error, the failed \<open>Send\<close> is the last thing it does
  (no log line, no sleep, no further send), and the responses handed to \<open>Send\<close> are
  exactly the items 1 to \<open>i\<close>: no item after \<open>i\<close> is sent.
\<close>

theorem SayHelloMultiple_send_failure:
  assumes "1 \<le> i" "i \<le> 5"
    and "StreamSend (spec_item (Name req) i) (Some err) \<in> set (trace (SayHelloMultiple send req stream))"
  shows "returned (SayHelloMultiple send req stream) = Some err \<and>
         sends (trace (SayHelloMultiple send req stream)) = map (spec_item (Name req)) [1..i] \<and>
         last (trace (SayHelloMultiple send req stream)) = StreamSend (spec_item (Name req) i) (Some err)"
proof -
  let ?run = "SayHelloMultiple send req stream"
  let ?n = "Name req"
  obtain k where k: "0 \<le> k" "k \<le> 5"
    "trace ?run = LogPrintf (''Received streaming request from: '' @ ?n)
           # concat (map (loop_round ?n) [1..k]) @ loop_tail ?n (k + 1) (returned ?run)"
    "returned ?run = None \<longleftrightarrow> k = 5"
    by (rule run_shapeE[of send req stream])
  from assms(3) have mem: "StreamSend (spec_item ?n i) (Some err)
      \<in> set (concat (map (loop_round ?n) [1..k])) \<union> set (loop_tail ?n (k + 1) (returned ?run))"
    unfolding k(3) by simp
  have "StreamSend (spec_item ?n i) (Some err) \<notin> set (concat (map (loop_round ?n) [1..k]))"
    using failed_rounds[of "StreamSend (spec_item ?n i) (Some err)" ?n "[1..k]"] by auto
  with mem have tl: "StreamSend (spec_item ?n i) (Some err) \<in> set (loop_tail ?n (k + 1) (returned ?run))"
    by simp
  then obtain e where e: "returned ?run = Some e" by (cases "returned ?run") simp_all
  with tl have eq: "spec_item ?n i = spec_item ?n (k + 1)" "err = e" by simp_all
  from e k have "k + 1 \<le> 5" "1 \<le> k + 1" by simp_all
  with eq(1) assms(1,2) have i: "i = k + 1" by (intro spec_item_inj[of ?n i "k + 1"])
  from k(1) have up: "[1..k + 1] = [1..k] @ [k + 1]" by (simp add: upto_rec2)
  have s: "sends (trace ?run) = map (spec_item ?n) [1..i]"
    unfolding k(3) unfolding e i up
    by (simp only: sends_Log sends_append sends_rounds sends_tail) simp
  have l: "last (trace ?run) = StreamSend (spec_item ?n i) (Some err)"
    unfolding k(3) unfolding e i eq(2) by simp
  from e eq(2) s l show ?thesis by simp
qed

theorem SayHelloMultiple_send_failure_witness:
  "StreamSend (spec_item ''Bob'' 3) (Some (Error ''transport is closing''))
     \<in> set (trace (SayHelloMultiple (send_upto 2 (Error ''transport is closing'')) \<lparr>Name = ''Bob''\<rparr> []))
   \<and> returned (SayHelloMultiple (send_upto 2 (Error ''transport is closing'')) \<lparr>Name = ''Bob''\<rparr> [])
       = Some (Error ''transport is closing'')
   \<and> sends (trace (SayHelloMultiple (send_upto 2 (Error ''transport is closing'')) \<lparr>Name = ''Bob''\<rparr> []))
       = [\<lparr>Message = ''Hello #1, Bob! Streaming response 1 of 5'', Count = 1\<rparr>,
          \<lparr>Message = ''Hello #2, Bob! Streaming response 2 of 5'', Count = 2\<rparr>,
          \<lparr>Message = ''Hello #3, Bob! Streaming response 3 of 5'', Count = 3\<rparr>]"
proof -
  have h: "StreamSend (spec_item (Name \<lparr>Name = ''Bob''\<rparr>) 3) (Some (Error ''transport is closing''))
     \<in> set (trace (SayHelloMultiple (send_upto 2 (Error ''transport is closing'')) \<lparr>Name = ''Bob''\<rparr> []))"
    by (simp add: run_send_upto_2 trace_def)
  have u: "[1..3] = [1, 2, (3::int)]" by (simp add: upto_rec1)
  from SayHelloMultiple_send_failure [of 3, OF _ _ h] h show ?thesis
    by (simp add: u spec_item_digit)
qed

text \<open>
  C6. The counts of the responses handed to \<open>Send\<close> within one streaming call are
  1, 2, 3, and so on, at most five of them: the first is 1 and each is greater than
  the one before. The response of the unary call has the count 1.
\<close>

theorem Count_increasing:
  "map (\<lambda>response. sint (Count response)) (sends (trace (SayHelloMultiple send req stream)))
     = [1..int (length (sends (trace (SayHelloMultiple send req stream))))]
   \<and> sorted_wrt (<) (map (\<lambda>response. sint (Count response))
                        (sends (trace (SayHelloMultiple send req stream))))
   \<and> length (sends (trace (SayHelloMultiple send req stream))) \<le> 5
   \<and> (\<exists>response. snd (SayHello ctx req') = Inr response \<and> sint (Count response) = 1)"
proof -
  let ?run = "SayHelloMultiple send req stream"
  obtain m where m: "0 \<le> m" "m \<le> 5" "sends (trace ?run) = map (spec_item (Name req)) [1..m]"
    by (rule sends_run[of send req stream])
  have "map (\<lambda>response. sint (Count response)) (map (spec_item (Name req)) [1..m]) = map (\<lambda>i. i) [1..m]"
    unfolding map_map using m(2) by (intro map_cong refl) (simp add: Count_spec_item)
  then have c: "map (\<lambda>response. sint (Count response)) (sends (trace ?run)) = [1..m]"
    unfolding m(3) by simp
  from m have len: "int (length (sends (trace ?run))) = m" by simp
  have u: "\<exists>response. snd (SayHello ctx req') = Inr response \<and> sint (Count response) = 1"
    by (simp add: SayHello_def)
  from m len have "length (sends (trace ?run)) \<le> 5" by linarith
  with u show ?thesis unfolding c len by simp
qed

theorem Count_increasing_witness:
  "map (\<lambda>response. sint (Count response)) (sends (trace (SayHelloMultiple send_ok \<lparr>Name = ''Bob''\<rparr> [])))
     = [1, 2, 3, 4, 5]
   \<and> sorted_wrt (<) (map (\<lambda>response. sint (Count response))
                        (sends (trace (SayHelloMultiple send_ok \<lparr>Name = ''Bob''\<rparr> []))))"
proof -
  have l: "length (sends (trace (SayHelloMultiple send_ok \<lparr>Name = ''Bob''\<rparr> []))) = 5"
    by (simp add: run_send_ok trace_def loop_round_def sends_def)
  have u: "[1..5] = [1, 2, 3, 4, (5::int)]" by (simp add: upto_rec1)
  from Count_increasing [of send_ok "\<lparr>Name = ''Bob''\<rparr>" "[]" "()" "\<lparr>Name = ''Bob''\<rparr>"]
  show ?thesis unfolding l by (simp only: u of_nat_numeral) simp
qed

text \<open>
  C10. The streaming operation is deterministic in what it emits: of two invocations
  whose requests carry the same name, on any two streams, the sequences of
  (message, count) pairs handed to \<open>Send\<close> agree item by item as far as both go (one
  is a prefix of the other), and they are identical when both invocations run to
  the end without a send error.
\<close>

theorem SayHelloMultiple_deterministic:
  assumes "GetName req1 = GetName req2"
  shows "(prefix (emitted (SayHelloMultiple send1 req1 stream1)) (emitted (SayHelloMultiple send2 req2 stream2))
          \<or> prefix (emitted (SayHelloMultiple send2 req2 stream2)) (emitted (SayHelloMultiple send1 req1 stream1)))
       \<and> (returned (SayHelloMultiple send1 req1 stream1) = None
            \<and> returned (SayHelloMultiple send2 req2 stream2) = None
          \<longrightarrow> emitted (SayHelloMultiple send1 req1 stream1) = emitted (SayHelloMultiple send2 req2 stream2))"
proof -
  let ?r1 = "SayHelloMultiple send1 req1 stream1" and ?r2 = "SayHelloMultiple send2 req2 stream2"
  let ?f = "\<lambda>i. (Message (spec_item (Name req1) i), Count (spec_item (Name req1) i))"
  from assms have n: "Name req2 = Name req1" by (simp add: GetName_def)
  obtain m1 where m1: "0 \<le> m1" "m1 \<le> 5" "sends (trace ?r1) = map (spec_item (Name req1)) [1..m1]"
    "returned ?r1 = None \<longrightarrow> m1 = 5"
    by (rule sends_run[of send1 req1 stream1])
  obtain m2 where m2: "0 \<le> m2" "m2 \<le> 5" "sends (trace ?r2) = map (spec_item (Name req1)) [1..m2]"
    "returned ?r2 = None \<longrightarrow> m2 = 5"
    using sends_run[of send2 req2 stream2] unfolding n by metis
  have e1: "emitted ?r1 = map ?f [1..m1]" by (simp add: emitted_def m1(3) comp_def)
  have e2: "emitted ?r2 = map ?f [1..m2]" by (simp add: emitted_def m2(3) comp_def)
  have pre: "prefix (map ?f [1..a]) (map ?f [1..b])" if "0 \<le> a" "a \<le> b" for a b
  proof -
    have "[1..b] = [1..a] @ [a + 1..b]"
    proof (cases "a = 0")
      case True
      then show ?thesis by simp
    next
      case False
      with that have "1 \<le> a" by simp
      then show ?thesis using that(2) by (rule upto_split2)
    qed
    then show ?thesis by simp
  qed
  have "prefix (emitted ?r1) (emitted ?r2) \<or> prefix (emitted ?r2) (emitted ?r1)"
    unfolding e1 e2 using pre[of m1 m2] pre[of m2 m1] m1(1) m2(1) by linarith
  moreover have "emitted ?r1 = emitted ?r2" if "returned ?r1 = None" "returned ?r2 = None"
    unfolding e1 e2 using m1(4) m2(4) that by simp
  ultimately show ?thesis by simp
qed

theorem SayHelloMultiple_deterministic_witness:
  "GetName \<lparr>Name = ''Bob''\<rparr> = GetName \<lparr>Name = ''Bob'', \<dots> = True\<rparr>
   \<and> returned (SayHelloMultiple send_ok \<lparr>Name = ''Bob''\<rparr> []) = None
   \<and> returned (SayHelloMultiple send_ok \<lparr>Name = ''Bob'', \<dots> = True\<rparr> [spec_item ''Eve'' 1]) = None
   \<and> emitted (SayHelloMultiple send_ok \<lparr>Name = ''Bob''\<rparr> [])
       = emitted (SayHelloMultiple send_ok \<lparr>Name = ''Bob'', \<dots> = True\<rparr> [spec_item ''Eve'' 1])"
proof -
  have h: "GetName \<lparr>Name = ''Bob''\<rparr> = GetName \<lparr>Name = ''Bob'', \<dots> = True\<rparr>"
    by (simp add: GetName_def)
  have r1: "returned (SayHelloMultiple send_ok \<lparr>Name = ''Bob''\<rparr> []) = None"
    by (simp add: run_send_ok returned_def)
  have r2: "returned (SayHelloMultiple send_ok \<lparr>Name = ''Bob'', \<dots> = True\<rparr> [spec_item ''Eve'' 1]) = None"
    by (simp add: run_send_ok returned_def)
  from SayHelloMultiple_deterministic [OF h, of send_ok "[]" send_ok "[spec_item ''Eve'' 1]"] h r1 r2
  show ?thesis by simp
qed

text \<open>
  Two invocations for \<open>Bob\<close>, one on a stream that accepts everything and one on a
  stream whose third \<open>Send\<close> fails, do not emit the same sequence: five pairs against
  three.
\<close>

theorem SayHelloMultiple_deterministic_counterexample:
  "GetName \<lparr>Name = ''Bob''\<rparr> = GetName \<lparr>Name = ''Bob''\<rparr>
   \<and> emitted (SayHelloMultiple send_ok \<lparr>Name = ''Bob''\<rparr> [])
       \<noteq> emitted (SayHelloMultiple (send_upto 2 (Error ''transport is closing'')) \<lparr>Name = ''Bob''\<rparr> [])
   \<and> length (emitted (SayHelloMultiple send_ok \<lparr>Name = ''Bob''\<rparr> [])) = 5
   \<and> length (emitted (SayHelloMultiple (send_upto 2 (Error ''transport is closing'')) \<lparr>Name = ''Bob''\<rparr> [])) = 3"
proof -
  have a: "length (emitted (SayHelloMultiple send_ok \<lparr>Name = ''Bob''\<rparr> [])) = 5"
    by (simp add: emitted_def run_send_ok trace_def sends_def loop_round_def)
  have b: "length (emitted (SayHelloMultiple (send_upto 2 (Error ''transport is closing'')) \<lparr>Name = ''Bob''\<rparr> [])) = 3"
    by (simp add: emitted_def run_send_upto_2 trace_def sends_def loop_round_def)
  have "emitted (SayHelloMultiple send_ok \<lparr>Name = ''Bob''\<rparr> [])
       \<noteq> emitted (SayHelloMultiple (send_upto 2 (Error ''transport is closing'')) \<lparr>Name = ''Bob''\<rparr> [])"
  proof
    assume "emitted (SayHelloMultiple send_ok \<lparr>Name = ''Bob''\<rparr> [])
       = emitted (SayHelloMultiple (send_upto 2 (Error ''transport is closing'')) \<lparr>Name = ''Bob''\<rparr> [])"
    then have "length (emitted (SayHelloMultiple send_ok \<lparr>Name = ''Bob''\<rparr> []))
       = length (emitted (SayHelloMultiple (send_upto 2 (Error ''transport is closing'')) \<lparr>Name = ''Bob''\<rparr> []))"
      by (rule arg_cong)
    then show False unfolding a b by simp
  qed
  with a b show ?thesis by (simp add: GetName_def)
qed

text \<open>
  C9. The handler sleeps one second after every \<open>Send\<close> that succeeds, the fifth
  included, and nowhere else: a run is the request's log line, then for each item
  sent successfully its send, its log line and one sleep of one second, then either
  the return of \<open>nil\<close> after five such rounds or one failed send and the return of
  its error. So the sleeps of a run are as many as its successful sends, and in a
  complete run the fifth sleep lies between the fifth emission and the end of the
  stream.
\<close>

theorem SayHelloMultiple_pacing:
  "\<exists>k. 0 \<le> k \<and> k \<le> 5 \<and>
       trace (SayHelloMultiple send req stream) =
         LogPrintf (''Received streaming request from: '' @ Name req)
           # concat (map (loop_round (Name req)) [1..k])
           @ loop_tail (Name req) (k + 1) (returned (SayHelloMultiple send req stream)) \<and>
       filter is_sleep (trace (SayHelloMultiple send req stream))
         = replicate (nat k) (TimeSleep 1000000000) \<and>
       (returned (SayHelloMultiple send req stream) = None \<longleftrightarrow> k = 5)"
proof -
  let ?run = "SayHelloMultiple send req stream"
  obtain k where k: "0 \<le> k" "k \<le> 5"
    "trace ?run = LogPrintf (''Received streaming request from: '' @ Name req)
           # concat (map (loop_round (Name req)) [1..k]) @ loop_tail (Name req) (k + 1) (returned ?run)"
    "returned ?run = None \<longleftrightarrow> k = 5"
    by (rule run_shapeE[of send req stream])
  have "filter is_sleep (trace ?run) = replicate (nat k) (TimeSleep 1000000000)"
    by (subst k(3)) (simp add: sleeps_rounds sleeps_tail)
  with k show ?thesis by (intro exI[of _ k]) simp
qed

text \<open>
  On a stream that accepts everything, the run for \<open>Bob\<close> ends with the fifth send,
  its log line and a sleep of one second, and only then returns \<open>nil\<close>; it has five
  sleeps, not four.
\<close>

theorem SayHelloMultiple_pacing_counterexample:
  "drop 13 (trace (SayHelloMultiple send_ok \<lparr>Name = ''Bob''\<rparr> [])) =
     [StreamSend \<lparr>Message = ''Hello #5, Bob! Streaming response 5 of 5'', Count = 5\<rparr> None,
      LogPrintf ''Sent streaming response #5 to Bob'',
      TimeSleep 1000000000]
   \<and> returned (SayHelloMultiple send_ok \<lparr>Name = ''Bob''\<rparr> []) = None
   \<and> length (filter is_sleep (trace (SayHelloMultiple send_ok \<lparr>Name = ''Bob''\<rparr> []))) = 5"
  by (simp add: run_send_ok trace_def returned_def loop_round_def spec_item_digit fmt_d_digit)

theorem SayHelloMultiple_pacing_witness:
  "filter is_sleep (trace (SayHelloMultiple (send_upto 2 (Error ''transport is closing'')) \<lparr>Name = ''Bob''\<rparr> []))
     = [TimeSleep 1000000000, TimeSleep 1000000000]"
proof -
  have r: "returned (SayHelloMultiple (send_upto 2 (Error ''transport is closing'')) \<lparr>Name = ''Bob''\<rparr> [])
             = Some (Error ''transport is closing'')"
    by (simp add: run_send_upto_2 returned_def)
  have s: "sends (trace (SayHelloMultiple (send_upto 2 (Error ''transport is closing'')) \<lparr>Name = ''Bob''\<rparr> []))
             = map (spec_item ''Bob'') [1, 2, 3]"
    by (simp add: run_send_upto_2 trace_def sends_def loop_round_def)
  from SayHelloMultiple_pacing [of "send_upto 2 (Error ''transport is closing'')" "\<lparr>Name = ''Bob''\<rparr>" "[]"]
  obtain k where k: "0 \<le> k" "k \<le> 5"
    "trace (SayHelloMultiple (send_upto 2 (Error ''transport is closing'')) \<lparr>Name = ''Bob''\<rparr> []) =
         LogPrintf (''Received streaming request from: '' @ Name \<lparr>Name = ''Bob''\<rparr>)
           # concat (map (loop_round (Name \<lparr>Name = ''Bob''\<rparr>)) [1..k])
           @ loop_tail (Name \<lparr>Name = ''Bob''\<rparr>) (k + 1)
               (returned (SayHelloMultiple (send_upto 2 (Error ''transport is closing'')) \<lparr>Name = ''Bob''\<rparr> []))"
    "filter is_sleep (trace (SayHelloMultiple (send_upto 2 (Error ''transport is closing'')) \<lparr>Name = ''Bob''\<rparr> []))
         = replicate (nat k) (TimeSleep 1000000000)"
    by (elim exE conjE)
  have "length (sends (trace (SayHelloMultiple (send_upto 2 (Error ''transport is closing'')) \<lparr>Name = ''Bob''\<rparr> [])))
          = nat k + 1"
    unfolding k(3) unfolding r using k(1)
    by (simp only: sends_Log sends_append sends_rounds sends_tail) simp
  with s have "nat k = 2" by simp
  with k(4) show ?thesis by (simp add: numeral_2_eq_2)
qed

section \<open>The outcomes of the receive loop\<close>

text \<open>
  C4. The receive loop handles the received responses in arrival order and stops at
  the first \<open>Recv\<close> that returns an error. When the first \<open>n\<close> receives give the
  responses \<open>rs\<close> and the next gives \<open>io.EOF\<close>, the loop prints the line of each
  response in order, then the completion line, and leaves by \<open>break\<close>. When the next
  gives any other error, the loop prints the lines of the responses and ends the
  process through \<open>log.Fatalf\<close> with status 1, printing no completion line and
  receiving no more. When every receive gives a response, the loop never ends. So the
  loop leaves normally exactly when the first error received is \<open>io.EOF\<close>.
\<close>

theorem recv_loop_outcomes:
  "(stake n stream = map Inr rs \<and> stream !! n = Inl io_EOF \<longrightarrow>
      recv_loop stream out = Some (Break, out @ map received_line rs @ [complete_line]))
   \<and> (stake n stream = map Inr rs \<and> stream !! n = Inl err \<and> err \<noteq> io_EOF \<longrightarrow>
      recv_loop stream out = Some (Exit 1, out @ map received_line rs @ [fatal_line err]))
   \<and> ((\<forall>j. \<exists>r. stream !! j = Inr r) \<longrightarrow> recv_loop stream out = None)
   \<and> ((\<exists>out'. recv_loop stream out = Some (Break, out'))
        \<longleftrightarrow> (\<exists>m rs'. stake m stream = map Inr rs' \<and> stream !! m = Inl io_EOF))"
proof (intro conjI impI)
  show "recv_loop stream out = Some (Break, out @ map received_line rs @ [complete_line])"
    if "stake n stream = map Inr rs \<and> stream !! n = Inl io_EOF"
    using recv_loop_ends_normally[of n stream rs out] that by blast
  show "recv_loop stream out = Some (Exit 1, out @ map received_line rs @ [fatal_line err])"
    if "stake n stream = map Inr rs \<and> stream !! n = Inl err \<and> err \<noteq> io_EOF"
    using recv_loop_ends_fatally[of n stream rs err out] that by blast
  show "recv_loop stream out = None" if "\<forall>j. \<exists>r. stream !! j = Inr r"
    using that by (rule recv_loop_never_ends)
  show "(\<exists>out'. recv_loop stream out = Some (Break, out'))
        \<longleftrightarrow> (\<exists>m rs'. stake m stream = map Inr rs' \<and> stream !! m = Inl io_EOF)"
  proof
    assume "\<exists>out'. recv_loop stream out = Some (Break, out')"
    then obtain out' where b: "recv_loop stream out = Some (Break, out')" by blast
    from recv_loop_Some_stops[OF b] obtain j e where "stream !! j = Inl e" by blast
    from first_stop[OF this] obtain m rs' e' where
      m: "stake m stream = map Inr rs'" "stream !! m = Inl e'" by blast
    have "e' = io_EOF"
    proof (rule ccontr)
      assume "e' \<noteq> io_EOF"
      from recv_loop_ends_fatally[OF m this, of out] b show False by simp
    qed
    with m show "\<exists>m rs'. stake m stream = map Inr rs' \<and> stream !! m = Inl io_EOF" by blast
  next
    assume "\<exists>m rs'. stake m stream = map Inr rs' \<and> stream !! m = Inl io_EOF"
    then obtain m rs' where "stake m stream = map Inr rs'" "stream !! m = Inl io_EOF" by blast
    from recv_loop_ends_normally[OF this, of out]
    show "\<exists>out'. recv_loop stream out = Some (Break, out')" by blast
  qed
qed

theorem recv_loop_outcomes_witness:
  "(stake 2 (Inr (spec_item ''Bob'' 1) ## Inr (spec_item ''Bob'' 2) ## sconst (Inl io_EOF))
      = map Inr [spec_item ''Bob'' 1, spec_item ''Bob'' 2]
    \<and> (Inr (spec_item ''Bob'' 1) ## Inr (spec_item ''Bob'' 2) ## sconst (Inl io_EOF)) !! 2 = Inl io_EOF
    \<and> recv_loop (Inr (spec_item ''Bob'' 1) ## Inr (spec_item ''Bob'' 2) ## sconst (Inl io_EOF)) []
      = Some (Break,
          [Stdout (envelope @ '' Received: Hello #1, Bob! Streaming response 1 of 5 (Count: 1)'' @ [CHR 0x0A]),
           Stdout (envelope @ '' Received: Hello #2, Bob! Streaming response 2 of 5 (Count: 2)'' @ [CHR 0x0A]),
           Stdout ([CHR 0x0A] @ check_mark @ '' Streaming complete!'' @ [CHR 0x0A])]))
   \<and> (stake 1 (Inr (spec_item ''Bob'' 1) ## sconst (Inl (Error ''connection reset'')))
      = map Inr [spec_item ''Bob'' 1]
    \<and> (Inr (spec_item ''Bob'' 1) ## sconst (Inl (Error ''connection reset''))) !! 1
      = Inl (Error ''connection reset'')
    \<and> Error ''connection reset'' \<noteq> io_EOF
    \<and> recv_loop (Inr (spec_item ''Bob'' 1) ## sconst (Inl (Error ''connection reset''))) []
      = Some (Exit 1,
          [Stdout (envelope @ '' Received: Hello #1, Bob! Streaming response 1 of 5 (Count: 1)'' @ [CHR 0x0A]),
           LogFatalf ''Error receiving stream: connection reset'']))
   \<and> ((\<forall>j. \<exists>r. sconst (Inr (spec_item ''Bob'' 1) :: error + HelloResponse) !! j = Inr r)
    \<and> recv_loop (sconst (Inr (spec_item ''Bob'' 1))) [] = None)"
proof -
  let ?a = "spec_item ''Bob'' 1" and ?b = "spec_item ''Bob'' 2"
  let ?s1 = "Inr ?a ## Inr ?b ## sconst (Inl io_EOF) :: (error + HelloResponse) stream"
  let ?s2 = "Inr ?a ## sconst (Inl (Error ''connection reset'')) :: (error + HelloResponse) stream"
  let ?s3 = "sconst (Inr ?a) :: (error + HelloResponse) stream"
  have h1: "stake 2 ?s1 = map Inr [?a, ?b] \<and> ?s1 !! 2 = Inl io_EOF"
    by (simp add: numeral_2_eq_2)
  have h2: "stake 1 ?s2 = map Inr [?a] \<and> ?s2 !! 1 = Inl (Error ''connection reset'')
            \<and> Error ''connection reset'' \<noteq> io_EOF"
    by simp
  have h3: "\<forall>j. \<exists>r. ?s3 !! j = Inr r"
    by simp
  have lines:
    "received_line ?a
       = Stdout (envelope @ '' Received: Hello #1, Bob! Streaming response 1 of 5 (Count: 1)'' @ [CHR 0x0A])"
    "received_line ?b
       = Stdout (envelope @ '' Received: Hello #2, Bob! Streaming response 2 of 5 (Count: 2)'' @ [CHR 0x0A])"
    by (simp_all add: received_line_def spec_item_digit fmt_d_digit)
  from recv_loop_outcomes [of 2 ?s1 "[?a, ?b]" "[]"] h1
  have c1: "recv_loop ?s1 [] = Some (Break, [] @ map received_line [?a, ?b] @ [complete_line])"
    by blast
  from recv_loop_outcomes [of 1 ?s2 "[?a]" "[]" "Error ''connection reset''"] h2
  have c2: "recv_loop ?s2 [] = Some (Exit 1, [] @ map received_line [?a]
              @ [fatal_line (Error ''connection reset'')])"
    by blast
  from recv_loop_outcomes [of _ ?s3 _ "[]"] h3
  have c3: "recv_loop ?s3 [] = None"
    by blast
  from h1 h2 h3 show ?thesis
    unfolding c1 c2 c3 by (simp add: lines complete_line_def fatal_line_def)
qed

section \<open>The client's calls and their timeouts\<close>



end
